theory Spec2Isabelle
  imports Complex_Main
begin

section \<open>Chord annotator: tokenizer and layout engine of \<open>app.py\<close>\<close>

subsection \<open>Strings\<close>

text \<open>
  A Python \<open>str\<close> is a sequence of Unicode code points. A code point is modelled by its
  number, so that the whitespace and line-break classes of Python are the ones of the
  interpreter and not only their ASCII part. \<open>py\<close> reads an ASCII literal.
\<close>

type_synonym codepoint = nat
type_synonym pystr = "codepoint list"

definition py :: "string \<Rightarrow> pystr" where
  "py s = map of_char s"

text \<open>
  The whitespace class shared by the regular expression classes \<open>\s\<close>, \<open>\S\<close> (on a
  \<open>str\<close> pattern) and by \<open>str.isspace\<close>: U+0009..U+000D, U+001C..U+0020, U+0085,
  U+00A0, U+1680, U+2000..U+200A, U+2028, U+2029, U+202F, U+205F, U+3000.
\<close>

definition is_whitespace :: "codepoint \<Rightarrow> bool" where
  "is_whitespace c \<longleftrightarrow>
     (9 \<le> c \<and> c \<le> 13) \<or> (28 \<le> c \<and> c \<le> 32) \<or> c = 133 \<or> c = 160 \<or> c = 5760 \<or>
     (8192 \<le> c \<and> c \<le> 8202) \<or> c = 8232 \<or> c = 8233 \<or> c = 8239 \<or> c = 8287 \<or>
     c = 12288"

text \<open>\<open>tok.isspace()\<close>: at least one character, and all of them whitespace.\<close>

definition isspace :: "pystr \<Rightarrow> bool" where
  "isspace s \<longleftrightarrow> s \<noteq> [] \<and> list_all is_whitespace s"

subsection \<open>The tokenizer\<close>

text \<open>
  \<open>re.findall(r"\S+|\s+", line)\<close> scans the line from the left. At each position it tries
  the first alternative, a greedy run of non-whitespace, then the second, a greedy run of
  whitespace; a match is appended and the scan resumes behind it, and a position where
  neither alternative matches is skipped by one character.
\<close>

function tokenize_line :: "pystr \<Rightarrow> pystr list" where
  "tokenize_line [] = []"
| "tokenize_line (c # cs) =
     (if takeWhile (\<lambda>a. \<not> is_whitespace a) (c # cs) \<noteq> [] then
        takeWhile (\<lambda>a. \<not> is_whitespace a) (c # cs)
          # tokenize_line (dropWhile (\<lambda>a. \<not> is_whitespace a) (c # cs))
      else if takeWhile is_whitespace (c # cs) \<noteq> [] then
        takeWhile is_whitespace (c # cs) # tokenize_line (dropWhile is_whitespace (c # cs))
      else tokenize_line cs)"
  by pat_completeness auto
termination
  by (relation "measure length")
    (auto simp: le_imp_less_Suc length_dropWhile_le split: if_splits)

text \<open>The two token classes; the render loop tells them apart with \<open>tok.isspace()\<close>.\<close>

datatype token_class = Word | Space

definition classify :: "pystr \<Rightarrow> token_class" where
  "classify tok = (if isspace tok then Space else Word)"

subsection \<open>Line splitting\<close>

text \<open>
  \<open>str.splitlines()\<close> ends a line at U+000A, U+000B, U+000C, U+000D, U+001C, U+001D,
  U+001E, U+0085, U+2028 and U+2029, and takes a carriage return followed by a line feed
  for one break. Its loop finds the next break, appends the text before it, and steps over
  the break; it stops when the text is used up.
\<close>

definition is_linebreak :: "codepoint \<Rightarrow> bool" where
  "is_linebreak c \<longleftrightarrow>
     c = 10 \<or> c = 11 \<or> c = 12 \<or> c = 13 \<or> c = 28 \<or> c = 29 \<or> c = 30 \<or> c = 133 \<or>
     c = 8232 \<or> c = 8233"

fun skip_linebreak :: "pystr \<Rightarrow> pystr" where
  "skip_linebreak [] = []"
| "skip_linebreak [c] = []"
| "skip_linebreak (c # d # cs) = (if c = 13 \<and> d = 10 then cs else d # cs)"

function splitlines :: "pystr \<Rightarrow> pystr list" where
  "splitlines [] = []"
| "splitlines (c # cs) =
     takeWhile (\<lambda>a. \<not> is_linebreak a) (c # cs)
       # splitlines (skip_linebreak (dropWhile (\<lambda>a. \<not> is_linebreak a) (c # cs)))"
  by pat_completeness auto
termination
proof (relation "measure length")
  show "wf (measure length)" by simp
next
  fix c :: codepoint and cs :: pystr
  have skip: "length (skip_linebreak r) \<le> length r - 1" for r
    by (induction r rule: skip_linebreak.induct) auto
  have "length (dropWhile (\<lambda>a. \<not> is_linebreak a) (c # cs)) \<le> Suc (length cs)"
    using length_dropWhile_le [of "\<lambda>a. \<not> is_linebreak a" "c # cs"] by simp
  with skip [of "dropWhile (\<lambda>a. \<not> is_linebreak a) (c # cs)"]
  show "(skip_linebreak (dropWhile (\<lambda>a. \<not> is_linebreak a) (c # cs)), c # cs)
          \<in> measure length"
    by simp
qed

text \<open>
  Two notions of the specification's sentence on trailing line breaks: a text ends in a
  line break, and the text without its trailing line break (a carriage return with its line
  feed is one break).
\<close>

definition ends_in_linebreak :: "pystr \<Rightarrow> bool" where
  "ends_in_linebreak s \<longleftrightarrow> s \<noteq> [] \<and> is_linebreak (last s)"

definition strip_trailing_break :: "pystr \<Rightarrow> pystr" where
  "strip_trailing_break s =
     (if 2 \<le> length s \<and> last (butlast s) = 13 \<and> last s = 10 then butlast (butlast s)
      else if ends_in_linebreak s then butlast s
      else s)"

subsection \<open>The imaging library\<close>

text \<open>
  A font object answers two questions of the engine: the bounding box of a text
  (\<open>font.getbbox\<close>, as left, top, right, bottom) and its advance width
  (\<open>font.getlength\<close>, behind \<open>draw.textlength\<close>). Widths and the horizontal cursor are
  Python floats. The library measures in 64ths of a pixel, and on such values, at the size
  of a page, the additions, subtractions and halvings of the engine are exact; they are
  modelled as exact rationals, and the rounding of float arithmetic is not part of the
  model.

  The library has two classes of font. A FreeType font, which \<open>ImageFont.truetype\<close> loads,
  takes any text. The legacy bitmap font, which \<open>ImageFont.load_default\<close> returns where the
  library is old or built without FreeType, encodes a text in Latin-1 before it measures
  or draws it, and raises \<open>UnicodeEncodeError\<close> on a character above U+00FF.
\<close>

datatype font_class = FreeTypeFont | BitmapFont

record font =
  font_kind :: font_class
  getbbox :: "pystr \<Rightarrow> int \<times> int \<times> int \<times> int"
  getlength :: "pystr \<Rightarrow> rat"

datatype pyerr = OSError | ValueError | OverflowError | MemoryError | UnicodeEncodeError

definition encodes :: "font \<Rightarrow> pystr \<Rightarrow> bool" where
  "encodes f text \<longleftrightarrow> font_kind f = FreeTypeFont \<or> list_all (\<lambda>c. c \<le> 255) text"

text \<open>
  The machine the render runs on: \<open>ImageFont.truetype(name, size)\<close> returns a font or
  raises, \<open>ImageFont.load_default()\<close> returns the built-in font, and \<open>allocates\<close> tells
  the canvas sizes for which the machine has the memory.
\<close>

record pil_env =
  truetype :: "string \<Rightarrow> nat \<Rightarrow> pyerr + font"
  load_default :: font
  allocates :: "int \<times> int \<Rightarrow> bool"

text \<open>
  \<open>draw.textlength(text, font)\<close> refuses a text that holds a line feed, and then asks the
  font, which raises on a text it cannot encode.
\<close>

definition textlength :: "font \<Rightarrow> pystr \<Rightarrow> pyerr + rat" where
  "textlength f text =
     (if 10 \<in> set text then Inl ValueError
      else if \<not> encodes f text then Inl UnicodeEncodeError
      else Inr (getlength f text))"

text \<open>
  One \<open>draw.text(xy, text, fill, font)\<close> call; the canvas keeps the calls in drawing order.
  The call raises on a text its font cannot encode.
\<close>

record draw_text =
  dt_x :: rat
  dt_y :: int
  dt_text :: pystr
  dt_fill :: string
  dt_font :: font

definition ImageDraw_text :: "draw_text list \<Rightarrow> draw_text \<Rightarrow> pyerr + draw_text list" where
  "ImageDraw_text ops call =
     (if \<not> encodes (dt_font call) (dt_text call) then Inl UnicodeEncodeError
      else Inr (ops @ [call]))"

record image =
  im_mode :: string
  im_size :: "int \<times> int"
  im_color :: string
  im_ops :: "draw_text list"

text \<open>
  \<open>Image.new(mode, size, color)\<close> refuses a negative width or height with \<open>ValueError\<close>,
  a width or height that does not fit a C \<open>int\<close> (from \<open>2^31\<close>) with \<open>OverflowError\<close>,
  and a size the machine cannot allocate with \<open>MemoryError\<close>.
\<close>

definition Image_new :: "pil_env \<Rightarrow> string \<Rightarrow> int \<times> int \<Rightarrow> string \<Rightarrow> pyerr + image" where
  "Image_new env mode sz color =
     (if fst sz < 0 \<or> snd sz < 0 then Inl ValueError
      else if 2147483648 \<le> fst sz \<or> 2147483648 \<le> snd sz then Inl OverflowError
      else if \<not> allocates env sz then Inl MemoryError
      else Inr \<lparr>im_mode = mode, im_size = sz, im_color = color, im_ops = []\<rparr>)"

subsection \<open>The layout and render engine\<close>

text \<open>
  The \<open>try\<close> block of \<open>render_chorded_lyrics\<close>: the three preferred fonts are loaded in
  turn, and any exception of any of the three loads replaces all three by the default font.
\<close>

definition select_fonts :: "pil_env \<Rightarrow> font \<times> font \<times> font" where
  "select_fonts env =
     (case truetype env ''DejaVuSansMono.ttf'' 28 of
        Inl e \<Rightarrow> (load_default env, load_default env, load_default env)
      | Inr base_font \<Rightarrow>
          (case truetype env ''DejaVuSansMono.ttf'' 24 of
             Inl e \<Rightarrow> (load_default env, load_default env, load_default env)
           | Inr chord_font \<Rightarrow>
               (case truetype env ''DejaVuSans.ttf'' 36 of
                  Inl e \<Rightarrow> (load_default env, load_default env, load_default env)
                | Inr title_font \<Rightarrow> (base_font, chord_font, title_font))))"

definition textheight :: "font \<Rightarrow> int" where
  "textheight f = (case getbbox f (py ''Ag'') of (l, t, r, b) \<Rightarrow> b - t)"

text \<open>\<open>if title\<close>: a title that is \<open>None\<close> or empty counts as no title.\<close>

definition truthy :: "pystr option \<Rightarrow> bool" where
  "truthy title = (case title of None \<Rightarrow> False | Some t \<Rightarrow> t \<noteq> [])"

text \<open>
  The body of the inner loop for one \<open>(ti, tok)\<close> of \<open>enumerate(tokens)\<close>. The state is the
  horizontal cursor \<open>x\<close> and the draw calls made so far.
\<close>

definition token_step ::
  "font \<Rightarrow> font \<Rightarrow> (int \<times> int \<rightharpoonup> pystr) \<Rightarrow> nat \<Rightarrow> int \<Rightarrow> nat \<times> pystr
     \<Rightarrow> rat \<times> draw_text list \<Rightarrow> pyerr + rat \<times> draw_text list" where
  "token_step base_font chord_font chord_map li y p st =
     (case (p, st) of ((ti, tok), (x, ops)) \<Rightarrow>
        if isspace tok then
          (case textlength base_font tok of
             Inl e \<Rightarrow> Inl e
           | Inr w \<Rightarrow> Inr (x + w, ops))
        else
          (case textlength base_font tok of
             Inl e \<Rightarrow> Inl e
           | Inr tok_w \<Rightarrow>
               (case (case chord_map (int li, int ti) of
                        None \<Rightarrow> Inr ops
                      | Some chord_txt \<Rightarrow>
                          (case textlength chord_font chord_txt of
                             Inl e \<Rightarrow> Inl e
                           | Inr cw \<Rightarrow>
                               ImageDraw_text ops
                                 \<lparr>dt_x = x + (tok_w - cw) / 2, dt_y = y,
                                  dt_text = chord_txt, dt_fill = ''black'',
                                  dt_font = chord_font\<rparr>)) of
                  Inl e \<Rightarrow> Inl e
                | Inr ops' \<Rightarrow>
                    (case textlength base_font (py '' '') of
                       Inl e \<Rightarrow> Inl e
                     | Inr sw \<Rightarrow> Inr (x + (tok_w + sw), ops')))))"

fun walk_tokens ::
  "font \<Rightarrow> font \<Rightarrow> (int \<times> int \<rightharpoonup> pystr) \<Rightarrow> nat \<Rightarrow> int \<Rightarrow> (nat \<times> pystr) list
     \<Rightarrow> rat \<times> draw_text list \<Rightarrow> pyerr + rat \<times> draw_text list" where
  "walk_tokens base_font chord_font chord_map li y [] st = Inr st"
| "walk_tokens base_font chord_font chord_map li y (p # rest) st =
     (case token_step base_font chord_font chord_map li y p st of
        Inl e \<Rightarrow> Inl e
      | Inr st' \<Rightarrow> walk_tokens base_font chord_font chord_map li y rest st')"

text \<open>
  The outer loop over \<open>enumerate(lines)\<close>. The state is the vertical cursor \<open>y\<close> and the draw
  calls made so far.
\<close>

fun draw_lines ::
  "font \<Rightarrow> font \<Rightarrow> (int \<times> int \<rightharpoonup> pystr) \<Rightarrow> int \<Rightarrow> int \<Rightarrow> int \<Rightarrow> (nat \<times> pystr) list
     \<Rightarrow> int \<times> draw_text list \<Rightarrow> pyerr + int \<times> draw_text list" where
  "draw_lines base_font chord_font chord_map margin line_spacing chord_gap [] st = Inr st"
| "draw_lines base_font chord_font chord_map margin line_spacing chord_gap
     ((li, line) # rest) (y, ops) =
     (case walk_tokens base_font chord_font chord_map li y
             (enumerate 0 (tokenize_line line)) (of_int margin, ops) of
        Inl e \<Rightarrow> Inl e
      | Inr (x, ops') \<Rightarrow>
          (case ImageDraw_text ops'
                  \<lparr>dt_x = of_int margin, dt_y = y + textheight chord_font + chord_gap,
                   dt_text = line, dt_fill = ''black'', dt_font = base_font\<rparr> of
             Inl e \<Rightarrow> Inl e
           | Inr ops'' \<Rightarrow>
               draw_lines base_font chord_font chord_map margin line_spacing chord_gap rest
                 (y + textheight chord_font + chord_gap + textheight base_font
                  + line_spacing, ops'')))"

text \<open>The title block: the title is measured, centred with a floor division, and drawn.\<close>

definition draw_title ::
  "font \<Rightarrow> pystr option \<Rightarrow> int \<Rightarrow> int \<Rightarrow> int \<Rightarrow> pyerr + int \<times> draw_text list" where
  "draw_title title_font title page_width margin title_h =
     (case title of
        None \<Rightarrow> Inr (margin, [])
      | Some t \<Rightarrow>
          if t = [] then Inr (margin, [])
          else
            (case textlength title_font t of
               Inl e \<Rightarrow> Inl e
             | Inr tw \<Rightarrow>
                 (case ImageDraw_text []
                         \<lparr>dt_x = of_int \<lfloor>(of_int page_width - tw) / 2\<rfloor>, dt_y = margin,
                          dt_text = t, dt_fill = ''black'', dt_font = title_font\<rparr> of
                    Inl e \<Rightarrow> Inl e
                  | Inr ops \<Rightarrow> Inr (margin + title_h, ops))))"

text \<open>\<open>render_chorded_lyrics\<close> behind its \<open>try\<close> block, with the three fonts chosen.\<close>

definition layout_and_draw ::
  "pil_env \<Rightarrow> font \<times> font \<times> font \<Rightarrow> pystr \<Rightarrow> (int \<times> int \<rightharpoonup> pystr) \<Rightarrow> pystr option \<Rightarrow> int
     \<Rightarrow> int \<Rightarrow> int \<Rightarrow> int \<Rightarrow> pyerr + image" where
  "layout_and_draw env fonts lyrics chord_map title page_width margin line_spacing chord_gap =
     (case fonts of (base_font, chord_font, title_font) \<Rightarrow>
        let lines = splitlines lyrics;
            line_h = textheight base_font;
            chord_h = textheight chord_font;
            title_h = (if truthy title then textheight title_font + 20 else 0);
            total_h = margin + title_h
                      + (line_h + chord_h + chord_gap + line_spacing) * int (length lines)
                      + margin
        in
          (case Image_new env ''RGB'' (page_width, total_h) ''white'' of
             Inl e \<Rightarrow> Inl e
           | Inr img \<Rightarrow>
               (case draw_title title_font title page_width margin title_h of
                  Inl e \<Rightarrow> Inl e
                | Inr st \<Rightarrow>
                    (case draw_lines base_font chord_font chord_map margin line_spacing
                            chord_gap (enumerate 0 lines) st of
                       Inl e \<Rightarrow> Inl e
                     | Inr (y, ops) \<Rightarrow> Inr (img\<lparr>im_ops := ops\<rparr>)))))"

definition render_chorded_lyrics ::
  "pil_env \<Rightarrow> pystr \<Rightarrow> (int \<times> int \<rightharpoonup> pystr) \<Rightarrow> pystr option \<Rightarrow> int \<Rightarrow> int \<Rightarrow> int \<Rightarrow> int
     \<Rightarrow> pyerr + image" where
  "render_chorded_lyrics env lyrics chord_map title page_width margin line_spacing chord_gap =
     layout_and_draw env (select_fonts env) lyrics chord_map title page_width margin
       line_spacing chord_gap"

text \<open>
  The keys of the chord map that name a token of the lyrics: the line index is one of
  \<open>enumerate(lines)\<close> and the token index one of \<open>enumerate(tokens)\<close> of that line;
  and the token such a key names.
\<close>

definition token_slot :: "pystr \<Rightarrow> int \<times> int \<Rightarrow> bool" where
  "token_slot lyrics k =
     (case k of (li, ti) \<Rightarrow>
        0 \<le> li \<and> li < int (length (splitlines lyrics)) \<and> 0 \<le> ti \<and>
        ti < int (length (tokenize_line (splitlines lyrics ! nat li))))"

definition slot_token :: "pystr \<Rightarrow> int \<times> int \<Rightarrow> pystr" where
  "slot_token lyrics k =
     (case k of (li, ti) \<Rightarrow> tokenize_line (splitlines lyrics ! nat li) ! nat ti)"

subsection \<open>Sample fonts and font resources\<close>

text \<open>
  A fixed-pitch FreeType font with advance \<open>w\<close> and glyph box height \<open>h\<close>, and the legacy
  bitmap font with the same metrics. Three machines, each with memory for canvases of up
  to \<open>2^28\<close> pixels: one with no TrueType file and a FreeType default font, one with
  every file asked for, and one with no TrueType file and the legacy bitmap font as its
  default. They give the concrete runs below their inputs.
\<close>

definition fixed_pitch :: "int \<Rightarrow> int \<Rightarrow> font" where
  "fixed_pitch w h =
     \<lparr>font_kind = FreeTypeFont,
      getbbox = (\<lambda>text. (0, 0, int (length text) * w, h)),
      getlength = (\<lambda>text. of_int (int (length text) * w))\<rparr>"

definition legacy_bitmap :: "int \<Rightarrow> int \<Rightarrow> font" where
  "legacy_bitmap w h =
     \<lparr>font_kind = BitmapFont,
      getbbox = (\<lambda>text. (0, 0, int (length text) * w, h)),
      getlength = (\<lambda>text. of_int (int (length text) * w))\<rparr>"

definition bare_env :: pil_env where
  "bare_env =
     \<lparr>truetype = (\<lambda>name size. Inl OSError), load_default = fixed_pitch 6 11,
      allocates = (\<lambda>sz. fst sz * snd sz \<le> 268435456)\<rparr>"

definition full_env :: pil_env where
  "full_env =
     \<lparr>truetype = (\<lambda>name size. Inr (fixed_pitch (int size div 2) (int size))),
      load_default = fixed_pitch 6 11,
      allocates = (\<lambda>sz. fst sz * snd sz \<le> 268435456)\<rparr>"

definition legacy_env :: pil_env where
  "legacy_env =
     \<lparr>truetype = (\<lambda>name size. Inl OSError), load_default = legacy_bitmap 6 11,
      allocates = (\<lambda>sz. fst sz * snd sz \<le> 268435456)\<rparr>"

subsection \<open>Properties of the tokenizer\<close>

lemma tokenize_line_step:
  "tokenize_line (c # cs) =
     (if is_whitespace c
      then (c # takeWhile is_whitespace cs) # tokenize_line (dropWhile is_whitespace cs)
      else (c # takeWhile (\<lambda>a. \<not> is_whitespace a) cs)
             # tokenize_line (dropWhile (\<lambda>a. \<not> is_whitespace a) cs))"
  by simp

lemma concat_tokenize_line: "concat (tokenize_line s) = s"
proof (induction s rule: tokenize_line.induct)
  case 1
  show ?case by simp
next
  case (2 c cs)
  show ?case
  proof (cases "is_whitespace c")
    case True
    with "2.IH"(2) show ?thesis by simp
  next
    case False
    with "2.IH"(1) show ?thesis by simp
  qed
qed

text \<open>
  C1 (tokenizer partition law). Concatenating the tokens of a line in order gives the line
  back: no character is dropped, none is added and none changes place.
\<close>

theorem tokenize_line_partition: "concat (tokenize_line s) = s"
  by (rule concat_tokenize_line)

lemma tokenize_line_eq_Nil: "tokenize_line s = [] \<longleftrightarrow> s = []"
  by (cases s) (simp_all only: tokenize_line_step tokenize_line.simps(1), simp_all)

lemma classify_space_run:
  "is_whitespace c \<Longrightarrow> classify (c # takeWhile is_whitespace cs) = Space"
  by (simp add: classify_def isspace_def list_all_iff) (meson set_takeWhileD)

lemma classify_word_run:
  "\<not> is_whitespace c \<Longrightarrow> classify (c # takeWhile (\<lambda>a. \<not> is_whitespace a) cs) = Word"
  by (simp add: classify_def isspace_def)

lemma classify_hd_tokenize_line:
  "classify (hd (tokenize_line (c # cs))) = (if is_whitespace c then Space else Word)"
  by (simp only: tokenize_line_step) (simp add: classify_space_run classify_word_run)

lemma token_shape:
  "tok \<in> set (tokenize_line s) \<Longrightarrow>
     tok \<noteq> [] \<and> (list_all is_whitespace tok \<or> \<not> list_ex is_whitespace tok)"
proof (induction s rule: tokenize_line.induct)
  case 1
  then show ?case by simp
next
  case (2 c cs)
  show ?case
  proof (cases "is_whitespace c")
    case True
    with "2.prems" have "tok = c # takeWhile is_whitespace cs
        \<or> tok \<in> set (tokenize_line (dropWhile is_whitespace (c # cs)))"
      by (simp only: tokenize_line_step) auto
    then show ?thesis
    proof
      assume "tok = c # takeWhile is_whitespace cs"
      with True show ?thesis
        by (auto simp: list_all_iff dest: set_takeWhileD)
    next
      assume "tok \<in> set (tokenize_line (dropWhile is_whitespace (c # cs)))"
      with True "2.IH"(2) show ?thesis by simp
    qed
  next
    case False
    with "2.prems" have "tok = c # takeWhile (\<lambda>a. \<not> is_whitespace a) cs
        \<or> tok \<in> set (tokenize_line (dropWhile (\<lambda>a. \<not> is_whitespace a) (c # cs)))"
      by (simp only: tokenize_line_step) auto
    then show ?thesis
    proof
      assume "tok = c # takeWhile (\<lambda>a. \<not> is_whitespace a) cs"
      with False show ?thesis
        by (auto simp: list_ex_iff dest: set_takeWhileD)
    next
      assume "tok \<in> set (tokenize_line (dropWhile (\<lambda>a. \<not> is_whitespace a) (c # cs)))"
      with False "2.IH"(1) show ?thesis by simp
    qed
  qed
qed

lemma distinct_adj_tokenize_line: "distinct_adj (map classify (tokenize_line s))"
proof (induction s rule: tokenize_line.induct)
  case 1
  show ?case by simp
next
  case (2 c cs)
  show ?case
  proof (cases "is_whitespace c")
    case True
    let ?r = "dropWhile is_whitespace cs"
    from True "2.IH"(2) have ih: "distinct_adj (map classify (tokenize_line ?r))" by simp
    have "tokenize_line ?r = [] \<or> classify (hd (tokenize_line ?r)) = Word"
    proof (cases ?r)
      case Nil
      show ?thesis unfolding Nil by simp
    next
      case (Cons d ds)
      then have "\<not> is_whitespace d" using hd_dropWhile [of is_whitespace cs] by auto
      with Cons show ?thesis by (simp only: classify_hd_tokenize_line) simp
    qed
    with True ih show ?thesis
      by (simp only: tokenize_line_step)
         (auto simp: distinct_adj_Cons classify_space_run hd_map)
  next
    case False
    let ?r = "dropWhile (\<lambda>a. \<not> is_whitespace a) cs"
    from False "2.IH"(1) have ih: "distinct_adj (map classify (tokenize_line ?r))" by simp
    have "tokenize_line ?r = [] \<or> classify (hd (tokenize_line ?r)) = Space"
    proof (cases ?r)
      case Nil
      show ?thesis unfolding Nil by simp
    next
      case (Cons d ds)
      then have "is_whitespace d" using hd_dropWhile [of "\<lambda>a. \<not> is_whitespace a" cs] by auto
      with Cons show ?thesis by (simp only: classify_hd_tokenize_line) simp
    qed
    with False ih show ?thesis
      by (simp only: tokenize_line_step)
         (auto simp: distinct_adj_Cons classify_word_run hd_map)
  qed
qed

text \<open>
  C6 (tokenizer classification and alternation). Every token of a line is either a
  whitespace run, classified \<open>Space\<close>, or a non-empty run without any whitespace,
  classified \<open>Word\<close>; and no two neighbours in the token sequence have the same class.
\<close>

theorem tokenize_line_classes:
  "(\<forall>tok \<in> set (tokenize_line line).
      (isspace tok \<and> classify tok = Space) \<or>
      (tok \<noteq> [] \<and> \<not> list_ex is_whitespace tok \<and> classify tok = Word)) \<and>
   distinct_adj (map classify (tokenize_line line))"
proof -
  have "(isspace tok \<and> classify tok = Space) \<or>
        (tok \<noteq> [] \<and> \<not> list_ex is_whitespace tok \<and> classify tok = Word)"
    if "tok \<in> set (tokenize_line line)" for tok
    using token_shape [OF that]
    by (auto simp: classify_def isspace_def list_all_iff list_ex_iff)
  then show ?thesis using distinct_adj_tokenize_line by blast
qed

theorem tokenize_line_classes_witness:
  "tokenize_line (py ''Guide  me, O'')
     = [py ''Guide'', py ''  '', py ''me,'', py '' '', py ''O''] \<and>
   map classify (tokenize_line (py ''Guide  me, O'')) = [Word, Space, Word, Space, Word] \<and>
   list_all (\<lambda>tok. isspace tok \<and> classify tok = Space \<or>
                   tok \<noteq> [] \<and> \<not> list_ex is_whitespace tok \<and> classify tok = Word)
     (tokenize_line (py ''Guide  me, O'')) \<and>
   distinct_adj (map classify (tokenize_line (py ''Guide  me, O'')))"
  using tokenize_line_classes [of "py ''Guide  me, O''"]
  by (simp add: py_def is_whitespace_def classify_def isspace_def)

subsection \<open>Properties of line splitting\<close>

lemma last_skip_linebreak: "skip_linebreak d \<noteq> [] \<Longrightarrow> last (skip_linebreak d) = last d"
  by (induction d rule: skip_linebreak.induct) (auto split: if_splits)

lemma skip_linebreak_append:
  "d \<noteq> [] \<Longrightarrow> \<not> (d = [13] \<and> t \<noteq> [] \<and> hd t = 10) \<Longrightarrow>
     skip_linebreak (d @ t) = skip_linebreak d @ t"
proof (induction d rule: skip_linebreak.induct)
  case 1
  then show ?case by simp
next
  case (2 c)
  then show ?case by (cases t) auto
next
  case (3 c d cs)
  then show ?case by simp
qed

lemma dropWhile_nonbreak_last:
  "dropWhile (\<lambda>a. \<not> is_linebreak a) s \<noteq> [] \<Longrightarrow>
     last (dropWhile (\<lambda>a. \<not> is_linebreak a) s) = last s"
  by (induction s) (auto split: if_splits)

lemma ends_in_linebreak_dropWhile:
  "ends_in_linebreak s \<Longrightarrow> dropWhile (\<lambda>a. \<not> is_linebreak a) s \<noteq> []"
  by (auto simp: ends_in_linebreak_def)

lemma splitlines_append_terminated:
  "s = [] \<or> ends_in_linebreak s \<Longrightarrow>
   \<not> (s \<noteq> [] \<and> last s = 13 \<and> t \<noteq> [] \<and> hd t = 10) \<Longrightarrow>
   splitlines (s @ t) = splitlines s @ splitlines t"
proof (induction s rule: splitlines.induct)
  case 1
  show ?case by simp
next
  case (2 c cs)
  let ?P = "\<lambda>a. \<not> is_linebreak a"
  let ?s = "c # cs"
  let ?d = "dropWhile ?P ?s"
  from "2.prems"(1) have ends: "ends_in_linebreak ?s" by simp
  then have d_ne: "?d \<noteq> []" by (rule ends_in_linebreak_dropWhile)
  then obtain x where x: "x \<in> set ?s" "\<not> ?P x" by (auto simp del: dropWhile.simps)
  have tw: "takeWhile ?P (?s @ t) = takeWhile ?P ?s"
    using x by (rule takeWhile_append1)
  have dw: "dropWhile ?P (?s @ t) = ?d @ t"
    using x by (rule dropWhile_append1)
  have last_d: "last ?d = last ?s" using d_ne by (rule dropWhile_nonbreak_last)
  have "\<not> (?d = [13] \<and> t \<noteq> [] \<and> hd t = 10)"
    using "2.prems"(2) last_d by auto
  with d_ne have sk: "skip_linebreak (?d @ t) = skip_linebreak ?d @ t"
    by (rule skip_linebreak_append)
  have ih1: "skip_linebreak ?d = [] \<or> ends_in_linebreak (skip_linebreak ?d)"
    using last_skip_linebreak [of ?d] last_d ends by (auto simp: ends_in_linebreak_def)
  have ih2: "\<not> (skip_linebreak ?d \<noteq> [] \<and> last (skip_linebreak ?d) = 13 \<and> t \<noteq> [] \<and> hd t = 10)"
    using last_skip_linebreak [of ?d] last_d "2.prems"(2) by auto
  have "splitlines (?s @ t) = takeWhile ?P ?s # splitlines (skip_linebreak ?d @ t)"
    using tw dw sk by (simp del: takeWhile.simps dropWhile.simps)
  also have "splitlines (skip_linebreak ?d @ t) = splitlines (skip_linebreak ?d) @ splitlines t"
    using ih1 ih2 by (rule "2.IH")
  finally show ?case by simp
qed

lemma splitlines_no_break:
  assumes "s \<noteq> []" and "list_all (\<lambda>a. \<not> is_linebreak a) s"
  shows "splitlines s = [s]"
proof -
  from assms(1) obtain c cs where s: "s = c # cs" by (cases s) auto
  from assms(2) have tw: "takeWhile (\<lambda>a. \<not> is_linebreak a) s = s"
    by (simp add: list_all_iff)
  from assms(2) have dw: "dropWhile (\<lambda>a. \<not> is_linebreak a) s = []"
    by (simp add: list_all_iff)
  have "splitlines s = takeWhile (\<lambda>a. \<not> is_linebreak a) s
          # splitlines (skip_linebreak (dropWhile (\<lambda>a. \<not> is_linebreak a) s))"
    unfolding s by (rule splitlines.simps(2))
  then show ?thesis by (simp only: tw dw skip_linebreak.simps(1) splitlines.simps(1))
qed

lemma splitlines_append_break:
  "s \<noteq> [] \<Longrightarrow> \<not> ends_in_linebreak s \<Longrightarrow> t \<noteq> [] \<Longrightarrow> is_linebreak (hd t) \<Longrightarrow>
   skip_linebreak t = [] \<Longrightarrow> splitlines (s @ t) = splitlines s"
proof (induction s rule: splitlines.induct)
  case 1
  then show ?case by simp
next
  case (2 c cs)
  let ?P = "\<lambda>a. \<not> is_linebreak a"
  let ?s = "c # cs"
  let ?d = "dropWhile ?P ?s"
  have unfold: "splitlines (?s @ t)
      = takeWhile ?P (?s @ t) # splitlines (skip_linebreak (dropWhile ?P (?s @ t)))"
    by (metis append_Cons splitlines.simps(2))
  show ?case
  proof (cases "?d = []")
    case True
    then have all: "\<forall>a \<in> set ?s. ?P a" by (simp only: dropWhile_eq_Nil_conv)
    have twt: "takeWhile ?P t = []" using "2.prems"(3,4) by (cases t) auto
    have dwt: "dropWhile ?P t = t" using "2.prems"(3,4) by (cases t) auto
    have "takeWhile ?P (?s @ t) = ?s @ takeWhile ?P t"
      by (rule takeWhile_append2) (use all in blast)
    then have "takeWhile ?P (?s @ t) = ?s" by (simp only: twt append_Nil2)
    moreover have "dropWhile ?P (?s @ t) = dropWhile ?P t"
      by (rule dropWhile_append2) (use all in blast)
    then have "dropWhile ?P (?s @ t) = t" by (simp only: dwt)
    ultimately have "splitlines (?s @ t) = [?s]"
      using unfold "2.prems"(5) by simp
    moreover have "splitlines ?s = [?s]"
      using all by (intro splitlines_no_break) (auto simp: list_all_iff)
    ultimately show ?thesis by simp
  next
    case False
    then obtain x where x: "x \<in> set ?s" "\<not> ?P x" by (auto simp del: dropWhile.simps)
    have tw: "takeWhile ?P (?s @ t) = takeWhile ?P ?s" using x by (rule takeWhile_append1)
    have dw: "dropWhile ?P (?s @ t) = ?d @ t" using x by (rule dropWhile_append1)
    have last_d: "last ?d = last ?s" using False by (rule dropWhile_nonbreak_last)
    have hd_d: "is_linebreak (hd ?d)" using False hd_dropWhile [of ?P ?s] by blast
    have not_single: "\<not> (\<exists>b. ?d = [b])"
    proof
      assume "\<exists>b. ?d = [b]"
      then obtain b where b: "?d = [b]" ..
      with hd_d last_d have "is_linebreak (last ?s)" by simp
      with "2.prems"(2) show False by (simp add: ends_in_linebreak_def)
    qed
    then have "\<not> (?d = [13] \<and> t \<noteq> [] \<and> hd t = 10)" by blast
    with False have sk: "skip_linebreak (?d @ t) = skip_linebreak ?d @ t"
      by (rule skip_linebreak_append)
    have sk_ne: "skip_linebreak ?d \<noteq> []"
    proof
      assume e: "skip_linebreak ?d = []"
      from False not_single obtain a b r where d: "?d = a # b # r"
        by (metis list.exhaust)
      with e have "a = 13 \<and> b = 10 \<and> r = []" by (auto split: if_splits)
      with d last_d have "last ?s = 10" by simp
      with "2.prems"(2) show False by (simp add: ends_in_linebreak_def is_linebreak_def)
    qed
    have sk_last: "\<not> ends_in_linebreak (skip_linebreak ?d)"
      using last_skip_linebreak [OF sk_ne] last_d "2.prems"(2)
      by (simp add: ends_in_linebreak_def)
    have "splitlines (skip_linebreak ?d @ t) = splitlines (skip_linebreak ?d)"
      using sk_ne sk_last "2.prems"(3,4,5) by (rule "2.IH")
    with unfold tw dw sk show ?thesis by simp
  qed
qed

lemma splitlines_single_break: "is_linebreak b \<Longrightarrow> splitlines [b] = [[]]"
  by simp

lemma splitlines_crlf: "splitlines [13, 10] = [[]]"
  by (simp add: is_linebreak_def)

text \<open>
  C8 (line splitting). For a text that ends in a line break, the lines are those of
  the text without its trailing line break when that remainder is non-empty and does not
  itself end in a line break; when the remainder is empty or ends in a line break, they are
  the lines of the remainder followed by one empty line.
\<close>

theorem splitlines_trailing_break:
  assumes "ends_in_linebreak s"
  shows "splitlines s =
           splitlines (strip_trailing_break s)
             @ (if strip_trailing_break s = [] \<or> ends_in_linebreak (strip_trailing_break s)
                then [[]] else [])"
proof (cases "2 \<le> length s \<and> last (butlast s) = 13 \<and> last s = 10")
  case True
  define r where "r = butlast (butlast s)"
  from True have ne: "s \<noteq> []" and ne': "butlast s \<noteq> []"
    by (auto simp: length_greater_0_conv [symmetric] simp del: length_greater_0_conv)
  have "s = butlast s @ [last s]" using ne by simp
  moreover have "butlast s = r @ [last (butlast s)]" using ne' by (simp add: r_def)
  ultimately have "s = (r @ [last (butlast s)]) @ [last s]" by simp
  with True have s: "s = r @ [13, 10]" by simp
  from True have st: "strip_trailing_break s = r" by (simp add: strip_trailing_break_def r_def)
  show ?thesis
  proof (cases "r = [] \<or> ends_in_linebreak r")
    case True
    then have "splitlines (r @ [13, 10]) = splitlines r @ splitlines [13, 10]"
      by (rule splitlines_append_terminated) simp
    with True s st show ?thesis by (simp only: splitlines_crlf if_True)
  next
    case False
    then have "splitlines (r @ [13, 10]) = splitlines r"
      by (intro splitlines_append_break) (auto simp: is_linebreak_def)
    with False s st show ?thesis by simp
  qed
next
  case False
  define r where "r = butlast s"
  define b where "b = last s"
  from assms have s: "s = r @ [b]" and b: "is_linebreak b"
    by (simp_all add: ends_in_linebreak_def r_def b_def)
  from False assms have st: "strip_trailing_break s = r"
    unfolding strip_trailing_break_def r_def by (simp only: if_False if_True)
  have nocrlf: "\<not> (r \<noteq> [] \<and> last r = 13 \<and> b = 10)"
  proof
    assume a: "r \<noteq> [] \<and> last r = 13 \<and> b = 10"
    then have "2 \<le> length s" using s by (cases r) auto
    with a False show False by (simp add: r_def b_def)
  qed
  show ?thesis
  proof (cases "r = [] \<or> ends_in_linebreak r")
    case True
    then have "splitlines (r @ [b]) = splitlines r @ splitlines [b]"
      using nocrlf by (intro splitlines_append_terminated) auto
    with True s st b show ?thesis by (simp only: splitlines_single_break if_True)
  next
    case False
    then have "splitlines (r @ [b]) = splitlines r"
      using b by (intro splitlines_append_break) auto
    with False s st show ?thesis by simp
  qed
qed

theorem splitlines_trailing_break_witness:
  "ends_in_linebreak (py ''a'' @ [10]) \<and> ends_in_linebreak (py ''a'' @ [10, 10]) \<and>
   splitlines (py ''a'' @ [10]) = splitlines (py ''a'') \<and>
   splitlines (py ''a'' @ [10, 10]) = splitlines (py ''a'' @ [10]) @ [[]]"
proof -
  have h1: "ends_in_linebreak (py ''a'' @ [10])"
    and h2: "ends_in_linebreak (py ''a'' @ [10, 10])"
    by (simp_all add: ends_in_linebreak_def is_linebreak_def)
  have s1: "strip_trailing_break (py ''a'' @ [10]) = py ''a''"
    and s2: "strip_trailing_break (py ''a'' @ [10, 10]) = py ''a'' @ [10]"
    by (simp_all add: strip_trailing_break_def ends_in_linebreak_def is_linebreak_def py_def)
  have e1: "\<not> (py ''a'' = [] \<or> ends_in_linebreak (py ''a''))"
    and e2: "ends_in_linebreak (py ''a'' @ [10])"
    by (simp_all add: ends_in_linebreak_def is_linebreak_def py_def)
  from splitlines_trailing_break [OF h1] splitlines_trailing_break [OF h2] h1 h2 e1 e2
  show ?thesis by (simp only: s1 s2) simp
qed

text \<open>
  Dropping the trailing line break does not always keep the lines: the text that is one
  line feed splits into one empty line, the empty text into none.
\<close>

theorem splitlines_trailing_break_counterexample:
  "ends_in_linebreak [10] \<and> splitlines [10] \<noteq> splitlines (strip_trailing_break [10])"
  by (simp add: ends_in_linebreak_def strip_trailing_break_def is_linebreak_def)

subsection \<open>When the render returns\<close>

lemma textlength_Inr:
  "10 \<notin> set text \<Longrightarrow> encodes f text \<Longrightarrow> textlength f text = Inr (getlength f text)"
  by (simp add: textlength_def)

lemma textlength_returns:
  "\<not> isl (textlength f text) \<Longrightarrow>
     textlength f text = Inr (getlength f text) \<and> encodes f text \<and> 10 \<notin> set text"
  by (auto simp: textlength_def split: if_splits)

lemma encodes_space: "encodes f (py '' '')"
  by (simp add: encodes_def py_def)

lemma textlength_space: "textlength f (py '' '') = Inr (getlength f (py '' ''))"
proof -
  have "10 \<notin> set (py '' '')" by (simp add: py_def)
  then show ?thesis using encodes_space by (rule textlength_Inr)
qed

lemma encodes_subset: "encodes f line \<Longrightarrow> set tok \<subseteq> set line \<Longrightarrow> encodes f tok"
  by (auto simp: encodes_def list_all_iff)

lemma ImageDraw_text_returns:
  "encodes (dt_font call) (dt_text call) \<Longrightarrow> ImageDraw_text ops call = Inr (ops @ [call])"
  by (simp add: ImageDraw_text_def)

lemma ImageDraw_text_Inr:
  "ImageDraw_text ops call = Inr ops' \<Longrightarrow> ops' = ops @ [call]"
  by (simp add: ImageDraw_text_def split: if_splits)

lemma token_subset_line: "tok \<in> set (tokenize_line line) \<Longrightarrow> set tok \<subseteq> set line"
proof -
  assume "tok \<in> set (tokenize_line line)"
  then have "set tok \<subseteq> set (concat (tokenize_line line))" by auto
  then show ?thesis by (simp only: concat_tokenize_line)
qed

lemma splitlines_no_linefeed: "line \<in> set (splitlines s) \<Longrightarrow> 10 \<notin> set line"
proof (induction s rule: splitlines.induct)
  case 1
  then show ?case by simp
next
  case (2 c cs)
  let ?P = "\<lambda>a. \<not> is_linebreak a"
  from "2.prems" have "line = takeWhile ?P (c # cs)
      \<or> line \<in> set (splitlines (skip_linebreak (dropWhile ?P (c # cs))))"
    by (simp only: splitlines.simps set_simps insert_iff)
  then show ?case
  proof
    assume l: "line = takeWhile ?P (c # cs)"
    show ?thesis
    proof
      assume "10 \<in> set line"
      then have "?P 10" unfolding l by (rule set_takeWhileD [THEN conjunct2])
      then show False by (simp add: is_linebreak_def)
    qed
  next
    assume "line \<in> set (splitlines (skip_linebreak (dropWhile ?P (c # cs))))"
    then show ?thesis by (rule "2.IH")
  qed
qed

lemma token_step_returns:
  assumes "\<not> isl (textlength base_font (snd p))"
    and "\<forall>v \<in> ran chord_map. \<not> isl (textlength chord_font v)"
  shows "\<exists>st'. token_step base_font chord_font chord_map li y p st = Inr st'"
proof -
  obtain ti tok x ops where p: "p = (ti, tok)" and st: "st = (x, ops)"
    by (cases p, cases st) auto
  from textlength_returns [OF assms(1)] p
  have tl: "textlength base_font tok = Inr (getlength base_font tok)"
    by simp
  show ?thesis
  proof (cases "chord_map (int li, int ti)")
    case None
    then show ?thesis by (simp add: token_step_def p st tl textlength_space)
  next
    case (Some chord_txt)
    then have "chord_txt \<in> ran chord_map" by (rule ranI)
    with assms(2) have "\<not> isl (textlength chord_font chord_txt)" by blast
    from textlength_returns [OF this]
    have "textlength chord_font chord_txt = Inr (getlength chord_font chord_txt)"
      and "encodes chord_font chord_txt"
      by simp_all
    with Some show ?thesis
      by (simp add: token_step_def p st tl textlength_space ImageDraw_text_returns)
  qed
qed

lemma walk_tokens_returns:
  assumes "\<forall>v \<in> ran chord_map. \<not> isl (textlength chord_font v)"
  shows "list_all (\<lambda>p. \<not> isl (textlength base_font (snd p))) ps \<Longrightarrow>
         \<exists>st'. walk_tokens base_font chord_font chord_map li y ps st = Inr st'"
proof (induction ps arbitrary: st)
  case Nil
  show ?case by simp
next
  case (Cons p ps)
  from Cons.prems have "\<not> isl (textlength base_font (snd p))" by simp
  from token_step_returns [OF this assms]
  obtain st1 where "token_step base_font chord_font chord_map li y p st = Inr st1" by blast
  moreover from Cons.prems
  have "list_all (\<lambda>p. \<not> isl (textlength base_font (snd p))) ps" by simp
  from Cons.IH [OF this]
  obtain st2 where "walk_tokens base_font chord_font chord_map li y ps st1 = Inr st2" by blast
  ultimately show ?case by simp
qed

lemma draw_lines_returns:
  assumes "\<forall>v \<in> ran chord_map. \<not> isl (textlength chord_font v)"
  shows "list_all (\<lambda>p. 10 \<notin> set (snd p) \<and> encodes base_font (snd p)) lns \<Longrightarrow>
         \<exists>st'. draw_lines base_font chord_font chord_map margin line_spacing chord_gap lns st
                 = Inr st'"
proof (induction lns arbitrary: st)
  case Nil
  show ?case by simp
next
  case (Cons p lns)
  obtain li line y ops where p: "p = (li, line)" and st: "st = (y, ops)"
    by (cases p, cases st) auto
  from Cons.prems p have nl: "10 \<notin> set line" and enc: "encodes base_font line" by simp_all
  have "list_all (\<lambda>p. \<not> isl (textlength base_font (snd p))) (enumerate 0 (tokenize_line line))"
    unfolding list_all_iff
  proof
    fix q assume "q \<in> set (enumerate 0 (tokenize_line line))"
    then have "snd q \<in> set (tokenize_line line)"
      by (metis in_set_zipE enumerate_eq_zip prod.collapse)
    then have sub: "set (snd q) \<subseteq> set line" by (rule token_subset_line)
    with nl have "10 \<notin> set (snd q)" by blast
    moreover from enc sub have "encodes base_font (snd q)" by (rule encodes_subset)
    ultimately show "\<not> isl (textlength base_font (snd q))" by (simp add: textlength_Inr)
  qed
  from walk_tokens_returns [OF assms this]
  obtain x ops' where
    w: "walk_tokens base_font chord_font chord_map li y (enumerate 0 (tokenize_line line))
       (of_int margin, ops) = Inr (x, ops')"
    by (metis surj_pair)
  from Cons.prems
  have "list_all (\<lambda>p. 10 \<notin> set (snd p) \<and> encodes base_font (snd p)) lns" by simp
  note ih = Cons.IH [OF this]
  show ?case unfolding p st using w enc ih by (simp add: ImageDraw_text_returns)
qed

lemma draw_title_returns:
  "truthy title \<longrightarrow> \<not> isl (textlength title_font (the title)) \<Longrightarrow>
   \<exists>st. draw_title title_font title page_width margin title_h = Inr st"
  by (cases title)
     (auto simp: draw_title_def truthy_def textlength_def ImageDraw_text_def split: if_splits)

lemma layout_and_draw_returns:
  assumes "\<not> isl (Image_new env ''RGB''
                    (page_width,
                     margin + (if truthy title then textheight title_font + 20 else 0)
                       + (textheight base_font + textheight chord_font + chord_gap
                          + line_spacing) * int (length (splitlines lyrics))
                       + margin) ''white'')"
    and "truthy title \<longrightarrow> \<not> isl (textlength title_font (the title))"
    and "\<forall>line \<in> set (splitlines lyrics). encodes base_font line"
    and "\<forall>v \<in> ran chord_map. \<not> isl (textlength chord_font v)"
  shows "\<exists>img. layout_and_draw env (base_font, chord_font, title_font) lyrics chord_map title
                 page_width margin line_spacing chord_gap = Inr img"
proof -
  from draw_title_returns [OF assms(2)] obtain st where
    t: "draw_title title_font title page_width margin
          (if truthy title then textheight title_font + 20 else 0) = Inr st"
    by blast
  have "list_all (\<lambda>p. 10 \<notin> set (snd p) \<and> encodes base_font (snd p))
          (enumerate 0 (splitlines lyrics))"
    unfolding list_all_iff
  proof
    fix q assume "q \<in> set (enumerate 0 (splitlines lyrics))"
    then have q: "snd q \<in> set (splitlines lyrics)"
      by (metis in_set_zipE enumerate_eq_zip prod.collapse)
    then have "10 \<notin> set (snd q)" by (rule splitlines_no_linefeed)
    with q assms(3) show "10 \<notin> set (snd q) \<and> encodes base_font (snd q)" by blast
  qed
  from draw_lines_returns [OF assms(4) this] obtain y ops where
    "draw_lines base_font chord_font chord_map margin line_spacing chord_gap
       (enumerate 0 (splitlines lyrics)) st = Inr (y, ops)"
    by (metis surj_pair)
  with t assms(1) show ?thesis
    by (cases "Image_new env ''RGB''
                 (page_width,
                  margin + (if truthy title then textheight title_font + 20 else 0)
                    + (textheight base_font + textheight chord_font + chord_gap
                       + line_spacing) * int (length (splitlines lyrics))
                    + margin) ''white''")
       (simp_all add: layout_and_draw_def Let_def)
qed





subsection \<open>Canvas size\<close>

lemma layout_and_draw_size:
  assumes "layout_and_draw env (base_font, chord_font, title_font) lyrics chord_map title
             page_width margin line_spacing chord_gap = Inr img"
  shows "im_size img =
           (page_width,
            margin * 2 + (if truthy title then textheight title_font + 20 else 0)
              + int (length (splitlines lyrics))
                * (textheight chord_font + chord_gap + textheight base_font + line_spacing))"
    and "im_mode img = ''RGB''" and "im_color img = ''white''"
  using assms
  by (auto simp: layout_and_draw_def Let_def Image_new_def algebra_simps
        split: sum.splits if_splits prod.splits)

lemma select_fonts_full_env:
  "select_fonts full_env = (fixed_pitch 14 28, fixed_pitch 12 24, fixed_pitch 18 36)"
  by (simp add: select_fonts_def full_env_def)

lemma select_fonts_bare_env:
  "select_fonts bare_env = (fixed_pitch 6 11, fixed_pitch 6 11, fixed_pitch 6 11)"
  by (simp add: select_fonts_def bare_env_def)


lemma allocates_sample_env:
  "allocates bare_env sz \<longleftrightarrow> fst sz * snd sz \<le> 268435456"
  "allocates full_env sz \<longleftrightarrow> fst sz * snd sz \<le> 268435456"
  "allocates legacy_env sz \<longleftrightarrow> fst sz * snd sz \<le> 268435456"
  by (simp_all add: bare_env_def full_env_def legacy_env_def)

lemma textheight_fixed_pitch: "textheight (fixed_pitch w h) = h"
  by (simp add: textheight_def fixed_pitch_def)

lemma getlength_fixed_pitch: "getlength (fixed_pitch w h) text = of_int (int (length text) * w)"
  by (simp add: fixed_pitch_def)

lemma encodes_fixed_pitch: "encodes (fixed_pitch w h) text"
  by (simp add: encodes_def fixed_pitch_def)


lemma getlength_legacy_bitmap:
  "getlength (legacy_bitmap w h) text = of_int (int (length text) * w)"
  by (simp add: legacy_bitmap_def)


text \<open>
  C2 (canvas sizing). With the fonts the render selected, every canvas it returns is as
  wide as the configured page width, and its height is twice the margin, plus the title
  block height (the title font's text height plus 20, or zero without a title), plus for
  each line of the lyrics the chord row height, the chord gap, the lyric row height and the
  line spacing.
\<close>

theorem canvas_size:
  assumes "select_fonts env = (base_font, chord_font, title_font)"
    and "render_chorded_lyrics env lyrics chord_map title page_width margin line_spacing
           chord_gap = Inr img"
  shows "im_size img =
           (page_width,
            margin * 2 + (if truthy title then textheight title_font + 20 else 0)
              + int (length (splitlines lyrics))
                * (textheight chord_font + chord_gap + textheight base_font + line_spacing))"
  using assms layout_and_draw_size(1) by (simp add: render_chorded_lyrics_def)

theorem canvas_size_witness:
  "select_fonts full_env = (fixed_pitch 14 28, fixed_pitch 12 24, fixed_pitch 18 36) \<and>
   length (splitlines (py ''Guide me'' @ [10] @ py ''O Thou'')) = 2 \<and>
   (\<exists>img. render_chorded_lyrics full_env (py ''Guide me'' @ [10] @ py ''O Thou'')
            [(0, 0) \<mapsto> py ''C''] (Some (py ''Chord Chart'')) 1500 60 18 8 = Inr img \<and>
          im_size img = (1500, 60 * 2 + (36 + 20) + 2 * (24 + 8 + 28 + 18)))"
proof -
  let ?lyrics = "py ''Guide me'' @ [10] @ py ''O Thou''"
  have n: "length (splitlines ?lyrics) = 2"
    by (simp add: py_def is_linebreak_def)
  have "\<exists>img. layout_and_draw full_env
           (fixed_pitch 14 28, fixed_pitch 12 24, fixed_pitch 18 36)
           ?lyrics [(0, 0) \<mapsto> py ''C''] (Some (py ''Chord Chart'')) 1500 60 18 8 = Inr img"
  proof (rule layout_and_draw_returns)
    show "\<not> isl (Image_new full_env ''RGB''
                  (1500,
                   60 + (if truthy (Some (py ''Chord Chart''))
                         then textheight (fixed_pitch 18 36) + 20 else 0)
                     + (textheight (fixed_pitch 14 28) + textheight (fixed_pitch 12 24) + 8 + 18)
                       * int (length (splitlines ?lyrics))
                     + 60) ''white'')"
      by (simp only: n)
         (simp add: textheight_fixed_pitch truthy_def Image_new_def allocates_sample_env)
    show "truthy (Some (py ''Chord Chart'')) \<longrightarrow>
            \<not> isl (textlength (fixed_pitch 18 36) (the (Some (py ''Chord Chart''))))"
      by (simp add: textlength_def encodes_fixed_pitch) (simp add: py_def)
    show "\<forall>line \<in> set (splitlines ?lyrics). encodes (fixed_pitch 14 28) line"
      by (simp add: encodes_fixed_pitch)
    show "\<forall>v \<in> ran [(0 :: int, 0 :: int) \<mapsto> py ''C'']. \<not> isl (textlength (fixed_pitch 12 24) v)"
      by (simp add: textlength_def encodes_fixed_pitch) (simp add: py_def)
  qed
  then obtain img where
    r: "render_chorded_lyrics full_env ?lyrics [(0, 0) \<mapsto> py ''C'']
          (Some (py ''Chord Chart'')) 1500 60 18 8 = Inr img"
    by (auto simp: render_chorded_lyrics_def select_fonts_full_env)
  from canvas_size [OF select_fonts_full_env r]
  have "im_size img = (1500, 60 * 2 + (36 + 20) + 2 * (24 + 8 + 28 + 18))"
    by (simp only: n) (simp add: textheight_fixed_pitch truthy_def py_def)
  with r n select_fonts_full_env show ?thesis by blast
qed

subsection \<open>Empty lyrics\<close>

text \<open>
  C10 (empty lyrics). For the empty lyrics string, whenever the imaging library accepts the
  canvas size (\<open>Image.new\<close> returns) and, if a title is given, measures it
  (\<open>draw.textlength\<close> returns: no line feed, no character its font cannot encode), the
  render returns a white canvas of the page width by twice the margin plus the title block
  height, on which the title, if one is given, is the only text drawn.
\<close>

theorem render_empty_lyrics:
  assumes "select_fonts env = (base_font, chord_font, title_font)"
    and "\<not> isl (Image_new env ''RGB''
                    (page_width,
                     2 * margin + (if truthy title then textheight title_font + 20 else 0))
                    ''white'')"
    and "truthy title \<longrightarrow> \<not> isl (textlength title_font (the title))"
  shows "render_chorded_lyrics env [] chord_map title page_width margin line_spacing chord_gap =
           Inr \<lparr>im_mode = ''RGB'',
                im_size = (page_width,
                           2 * margin + (if truthy title then textheight title_font + 20 else 0)),
                im_color = ''white'',
                im_ops = (if truthy title
                          then [\<lparr>dt_x = of_int \<lfloor>(of_int page_width
                                                 - getlength title_font (the title)) / 2\<rfloor>,
                                  dt_y = margin, dt_text = the title, dt_fill = ''black'',
                                  dt_font = title_font\<rparr>]
                          else [])\<rparr>"
proof -
  have sz: "margin + (if truthy title then textheight title_font + 20 else 0)
              + (textheight base_font + textheight chord_font + chord_gap + line_spacing)
                * int (length (splitlines [])) + margin
            = 2 * margin + (if truthy title then textheight title_font + 20 else 0)"
    by simp
  from assms(2) have new:
    "Image_new env ''RGB''
       (page_width, 2 * margin + (if truthy title then textheight title_font + 20 else 0))
       ''white''
     = Inr \<lparr>im_mode = ''RGB'',
            im_size = (page_width,
                       2 * margin + (if truthy title then textheight title_font + 20 else 0)),
            im_color = ''white'', im_ops = []\<rparr>"
    by (simp add: Image_new_def split: if_splits)
  show ?thesis
  proof (cases "truthy title")
    case False
    then have "draw_title title_font title page_width margin 0 = Inr (margin, [])"
      by (cases title) (simp_all add: draw_title_def truthy_def)
    with False new show ?thesis
      unfolding render_chorded_lyrics_def assms(1) layout_and_draw_def Let_def prod.case sz
      by simp
  next
    case True
    then obtain t where t: "title = Some t" "t \<noteq> []"
      by (cases title) (simp_all add: truthy_def)
    from True assms(3) have "\<not> isl (textlength title_font (the title))" by blast
    from textlength_returns [OF this] t
    have "textlength title_font t = Inr (getlength title_font t)" and "encodes title_font t"
      by simp_all
    then have "draw_title title_font title page_width margin (textheight title_font + 20)
        = Inr (margin + (textheight title_font + 20),
               [\<lparr>dt_x = of_int \<lfloor>(of_int page_width - getlength title_font t) / 2\<rfloor>,
                 dt_y = margin, dt_text = t, dt_fill = ''black'', dt_font = title_font\<rparr>])"
      using t by (simp add: draw_title_def ImageDraw_text_def)
    with True new t show ?thesis
      unfolding render_chorded_lyrics_def assms(1) layout_and_draw_def Let_def prod.case sz
      by simp
  qed
qed

theorem render_empty_lyrics_witness:
  "render_chorded_lyrics bare_env [] [(0, 0) \<mapsto> py ''C''] (Some (py ''Chord Chart'')) 1500 60
       18 8 =
     Inr \<lparr>im_mode = ''RGB'', im_size = (1500, 151), im_color = ''white'',
          im_ops = [\<lparr>dt_x = 717, dt_y = 60, dt_text = py ''Chord Chart'', dt_fill = ''black'',
                    dt_font = fixed_pitch 6 11\<rparr>]\<rparr> \<and>
   render_chorded_lyrics bare_env [] Map.empty None 1500 60 18 8 =
     Inr \<lparr>im_mode = ''RGB'', im_size = (1500, 120), im_color = ''white'', im_ops = []\<rparr>"
proof -
  have a: "\<not> isl (Image_new bare_env ''RGB''
                   (1500, 2 * 60 + (if truthy (Some (py ''Chord Chart''))
                                    then textheight (fixed_pitch 6 11) + 20 else 0))
                   ''white'')"
    by (simp add: textheight_fixed_pitch Image_new_def allocates_sample_env)
  have b: "truthy (Some (py ''Chord Chart'')) \<longrightarrow>
             \<not> isl (textlength (fixed_pitch 6 11) (the (Some (py ''Chord Chart''))))"
    by (simp add: textlength_def encodes_fixed_pitch) (simp add: py_def)
  have a': "\<not> isl (Image_new bare_env ''RGB''
                    (1500, 2 * 60 + (if truthy None
                                     then textheight (fixed_pitch 6 11) + 20 else 0))
                    ''white'')"
    by (simp add: truthy_def Image_new_def allocates_sample_env)
  have b': "truthy None \<longrightarrow> \<not> isl (textlength (fixed_pitch 6 11) (the None))"
    by (simp add: truthy_def)
  from render_empty_lyrics [OF select_fonts_bare_env a b]
       render_empty_lyrics [OF select_fonts_bare_env a' b']
  show ?thesis
    by (simp add: truthy_def textheight_fixed_pitch getlength_fixed_pitch py_def)
qed

text \<open>
  Without the condition on the title the render of the empty lyrics can raise: a title
  that holds a line feed is refused by \<open>draw.textlength\<close>, with the default page width,
  margin, line spacing and chord gap.
\<close>

theorem render_empty_lyrics_counterexample:
  "render_chorded_lyrics bare_env [] Map.empty (Some (py ''A'' @ [10] @ py ''B'')) 1500 60 18 8
     = Inl ValueError"
  by (simp add: render_chorded_lyrics_def select_fonts_bare_env layout_and_draw_def Let_def
        textheight_fixed_pitch truthy_def Image_new_def allocates_sample_env draw_title_def
        textlength_def)

subsection \<open>Font fallback\<close>





lemma isspace_Guide_me:
  "\<not> isspace (py ''Guide'')" "isspace (py '' '')" "\<not> isspace (py ''me'')"
  by (simp_all add: isspace_def py_def is_whitespace_def)




subsection \<open>Chord map entries the walk never reads\<close>

lemma token_step_chord_map_cong:
  assumes "\<not> isspace (snd p) \<Longrightarrow> cm (int li, int (fst p)) = cm' (int li, int (fst p))"
  shows "token_step base_font chord_font cm li y p st
           = token_step base_font chord_font cm' li y p st"
proof (cases "isspace (snd p)")
  case True
  then show ?thesis by (cases p, cases st) (simp add: token_step_def)
next
  case False
  from assms [OF False] show ?thesis
    by (cases p, cases st) (simp add: token_step_def split: sum.splits)
qed

lemma walk_tokens_chord_map_cong:
  "(\<And>p. p \<in> set ps \<Longrightarrow> \<not> isspace (snd p) \<Longrightarrow>
          cm (int li, int (fst p)) = cm' (int li, int (fst p))) \<Longrightarrow>
   walk_tokens base_font chord_font cm li y ps st
     = walk_tokens base_font chord_font cm' li y ps st"
proof (induction ps arbitrary: st)
  case Nil
  show ?case by simp
next
  case (Cons p ps)
  have "token_step base_font chord_font cm li y p st
          = token_step base_font chord_font cm' li y p st"
    by (rule token_step_chord_map_cong) (simp add: Cons.prems)
  moreover have "walk_tokens base_font chord_font cm li y ps st'
          = walk_tokens base_font chord_font cm' li y ps st'" for st'
    by (rule Cons.IH) (simp add: Cons.prems)
  ultimately show ?case by (simp split: sum.splits)
qed

lemma draw_lines_chord_map_cong:
  "(\<And>li line ti tok. (li, line) \<in> set lns \<Longrightarrow>
        (ti, tok) \<in> set (enumerate 0 (tokenize_line line)) \<Longrightarrow> \<not> isspace tok \<Longrightarrow>
        cm (int li, int ti) = cm' (int li, int ti)) \<Longrightarrow>
   draw_lines base_font chord_font cm margin line_spacing chord_gap lns st
     = draw_lines base_font chord_font cm' margin line_spacing chord_gap lns st"
proof (induction lns arbitrary: st)
  case Nil
  show ?case by simp
next
  case (Cons q lns)
  obtain li line y ops where q: "q = (li, line)" and st: "st = (y, ops)"
    by (cases q, cases st) auto
  have w: "walk_tokens base_font chord_font cm li y (enumerate 0 (tokenize_line line)) st'
          = walk_tokens base_font chord_font cm' li y (enumerate 0 (tokenize_line line)) st'"
    for st'
  proof (rule walk_tokens_chord_map_cong)
    fix p assume "p \<in> set (enumerate 0 (tokenize_line line))" "\<not> isspace (snd p)"
    then show "cm (int li, int (fst p)) = cm' (int li, int (fst p))"
      using Cons.prems [of li line "fst p" "snd p"] q by simp
  qed
  have r: "draw_lines base_font chord_font cm margin line_spacing chord_gap lns st'
          = draw_lines base_font chord_font cm' margin line_spacing chord_gap lns st'" for st'
  proof (rule Cons.IH)
    fix li line ti tok
    assume "(li, line) \<in> set lns"
      and "(ti, tok) \<in> set (enumerate 0 (tokenize_line line))" and "\<not> isspace tok"
    then show "cm (int li, int ti) = cm' (int li, int ti)"
      using Cons.prems [of li line ti tok] by simp
  qed
  show ?case unfolding q st by (simp add: w r split: sum.splits)
qed

lemma layout_and_draw_chord_map_cong:
  assumes "\<And>li ti. li < length (splitlines lyrics) \<Longrightarrow>
             ti < length (tokenize_line (splitlines lyrics ! li)) \<Longrightarrow>
             \<not> isspace (tokenize_line (splitlines lyrics ! li) ! ti) \<Longrightarrow>
             cm (int li, int ti) = cm' (int li, int ti)"
  shows "layout_and_draw env fonts lyrics cm title page_width margin line_spacing chord_gap
           = layout_and_draw env fonts lyrics cm' title page_width margin line_spacing chord_gap"
proof -
  obtain base_font chord_font title_font where fonts: "fonts = (base_font, chord_font, title_font)"
    by (cases fonts) auto
  have "draw_lines base_font chord_font cm margin line_spacing chord_gap
          (enumerate 0 (splitlines lyrics)) st
        = draw_lines base_font chord_font cm' margin line_spacing chord_gap
          (enumerate 0 (splitlines lyrics)) st" for st
  proof (rule draw_lines_chord_map_cong)
    fix li line ti tok
    assume "(li, line) \<in> set (enumerate 0 (splitlines lyrics))"
      and "(ti, tok) \<in> set (enumerate 0 (tokenize_line line))" and "\<not> isspace tok"
    then show "cm (int li, int ti) = cm' (int li, int ti)"
      using assms [of li ti] by (auto simp: in_set_enumerate_eq)
  qed
  then show ?thesis by (simp add: fonts layout_and_draw_def Let_def split: sum.splits)
qed

lemma render_drop_unread_entry:
  assumes "\<not> (token_slot lyrics k \<and> \<not> isspace (slot_token lyrics k))"
  shows "render_chorded_lyrics env lyrics chord_map title page_width margin line_spacing
             chord_gap =
         render_chorded_lyrics env lyrics (chord_map(k := None)) title page_width margin
             line_spacing chord_gap"
  unfolding render_chorded_lyrics_def
proof (rule layout_and_draw_chord_map_cong)
  fix li ti
  assume "li < length (splitlines lyrics)"
    and "ti < length (tokenize_line (splitlines lyrics ! li))"
    and "\<not> isspace (tokenize_line (splitlines lyrics ! li) ! ti)"
  then have "token_slot lyrics (int li, int ti) \<and> \<not> isspace (slot_token lyrics (int li, int ti))"
    by (simp add: token_slot_def slot_token_def)
  with assms have "k \<noteq> (int li, int ti)" by blast
  then show "chord_map (int li, int ti) = (chord_map(k := None)) (int li, int ti)"
    by simp
qed

text \<open>
  C3 (orphan chords are dropped). A chord map entry whose key names no token of the lyrics
  (the line index or the token index is out of range) changes nothing: the render gives
  the result it gives without the entry. So it draws no chord for the entry, and it raises
  no error for it: whenever the render without the entry returns a canvas, the render with
  the entry returns that canvas.
\<close>

theorem orphan_chord_dropped:
  assumes "chord_map k = Some chord_txt" and "\<not> token_slot lyrics k"
  shows "render_chorded_lyrics env lyrics chord_map title page_width margin line_spacing
             chord_gap =
           render_chorded_lyrics env lyrics (chord_map(k := None)) title page_width margin
             line_spacing chord_gap \<and>
         (\<forall>img. render_chorded_lyrics env lyrics (chord_map(k := None)) title page_width
                  margin line_spacing chord_gap = Inr img \<longrightarrow>
                render_chorded_lyrics env lyrics chord_map title page_width margin
                  line_spacing chord_gap = Inr img)"
proof -
  have "render_chorded_lyrics env lyrics chord_map title page_width margin line_spacing
             chord_gap =
           render_chorded_lyrics env lyrics (chord_map(k := None)) title page_width margin
             line_spacing chord_gap"
    using assms(2) by (intro render_drop_unread_entry) simp
  then show ?thesis by simp
qed

lemma tokenize_Hello_world:
  "tokenize_line (py ''Hello world'') = [py ''Hello'', py '' '', py ''world'']"
  by (simp add: py_def is_whitespace_def)

lemma splitlines_Hello_world: "splitlines (py ''Hello world'') = [py ''Hello world'']"
  by (simp add: py_def is_linebreak_def)

lemma isspace_Hello_world: "\<not> isspace (py ''Hello'')" "\<not> isspace (py ''world'')"
  by (simp_all add: isspace_def py_def is_whitespace_def)

lemma render_Hello_world_bare:
  "render_chorded_lyrics bare_env (py ''Hello world'') Map.empty None 1500 60 18 8 =
     Inr \<lparr>im_mode = ''RGB'', im_size = (1500, 168), im_color = ''white'',
          im_ops = [\<lparr>dt_x = 60, dt_y = 79, dt_text = py ''Hello world'', dt_fill = ''black'',
                     dt_font = fixed_pitch 6 11\<rparr>]\<rparr>"
  by (simp add: render_chorded_lyrics_def select_fonts_bare_env layout_and_draw_def Let_def
        splitlines_Hello_world tokenize_Hello_world textheight_fixed_pitch truthy_def
        Image_new_def allocates_sample_env draw_title_def token_step_def isspace_Guide_me
        isspace_Hello_world textlength_def ImageDraw_text_def encodes_fixed_pitch
        getlength_fixed_pitch)
     (simp add: py_def)

theorem orphan_chord_dropped_witness:
  "[(0, 5) \<mapsto> py ''G'' @ [10]] (0, 5) = Some (py ''G'' @ [10]) \<and>
   \<not> token_slot (py ''Hello world'') (0, 5) \<and>
   render_chorded_lyrics bare_env (py ''Hello world'') [(0, 5) \<mapsto> py ''G'' @ [10]] None 1500 60
       18 8 =
     Inr \<lparr>im_mode = ''RGB'', im_size = (1500, 168), im_color = ''white'',
          im_ops = [\<lparr>dt_x = 60, dt_y = 79, dt_text = py ''Hello world'', dt_fill = ''black'',
                     dt_font = fixed_pitch 6 11\<rparr>]\<rparr>"
proof -
  have e: "[(0, 5) \<mapsto> py ''G'' @ [10]] ((0, 5) :: int \<times> int) = Some (py ''G'' @ [10])"
    by simp
  have o: "\<not> token_slot (py ''Hello world'') (0, 5)"
    by (simp add: token_slot_def splitlines_Hello_world tokenize_Hello_world)
  have m: "[(0, 5) \<mapsto> py ''G'' @ [10]]((0, 5) := None) = (Map.empty :: int \<times> int \<rightharpoonup> pystr)"
    by simp
  from orphan_chord_dropped
         [where chord_map = "[(0, 5) \<mapsto> py ''G'' @ [10]]" and k = "(0, 5)" and env = bare_env
            and title = None and page_width = 1500 and margin = 60 and line_spacing = 18
            and chord_gap = 8, OF e o]
  have "render_chorded_lyrics bare_env (py ''Hello world'') [(0, 5) \<mapsto> py ''G'' @ [10]] None
          1500 60 18 8 =
        render_chorded_lyrics bare_env (py ''Hello world'')
          ([(0, 5) \<mapsto> py ''G'' @ [10]]((0, 5) := None)) None 1500 60 18 8"
    by (rule conjunct1)
  with e o show ?thesis by (simp only: m render_Hello_world_bare) simp
qed

text \<open>
  C9 (a chord keyed to a whitespace token). A chord map entry whose key names a token that
  exists but is a whitespace run changes nothing either: the render gives the result it
  gives without the entry, so whenever the render without the entry returns a canvas, the
  render with the entry returns that canvas.
\<close>

theorem space_slot_chord_ignored:
  assumes "chord_map k = Some chord_txt" and "token_slot lyrics k"
    and "isspace (slot_token lyrics k)"
  shows "render_chorded_lyrics env lyrics chord_map title page_width margin line_spacing
             chord_gap =
           render_chorded_lyrics env lyrics (chord_map(k := None)) title page_width margin
             line_spacing chord_gap \<and>
         (\<forall>img. render_chorded_lyrics env lyrics (chord_map(k := None)) title page_width
                  margin line_spacing chord_gap = Inr img \<longrightarrow>
                render_chorded_lyrics env lyrics chord_map title page_width margin
                  line_spacing chord_gap = Inr img)"
proof -
  have "render_chorded_lyrics env lyrics chord_map title page_width margin line_spacing
             chord_gap =
           render_chorded_lyrics env lyrics (chord_map(k := None)) title page_width margin
             line_spacing chord_gap"
    using assms(3) by (intro render_drop_unread_entry) simp
  then show ?thesis by simp
qed

theorem space_slot_chord_ignored_witness:
  "[(0, 1) \<mapsto> py ''G''] (0, 1) = Some (py ''G'') \<and>
   token_slot (py ''Hello world'') (0, 1) \<and>
   slot_token (py ''Hello world'') (0, 1) = py '' '' \<and>
   isspace (slot_token (py ''Hello world'') (0, 1)) \<and>
   render_chorded_lyrics bare_env (py ''Hello world'') [(0, 1) \<mapsto> py ''G''] None 1500 60 18 8 =
     Inr \<lparr>im_mode = ''RGB'', im_size = (1500, 168), im_color = ''white'',
          im_ops = [\<lparr>dt_x = 60, dt_y = 79, dt_text = py ''Hello world'', dt_fill = ''black'',
                     dt_font = fixed_pitch 6 11\<rparr>]\<rparr>"
proof -
  have e: "[(0, 1) \<mapsto> py ''G''] ((0, 1) :: int \<times> int) = Some (py ''G'')" by simp
  have t: "token_slot (py ''Hello world'') (0, 1)"
    by (simp add: token_slot_def splitlines_Hello_world tokenize_Hello_world)
  have s: "slot_token (py ''Hello world'') (0, 1) = py '' ''"
    by (simp add: slot_token_def splitlines_Hello_world tokenize_Hello_world)
  have i: "isspace (slot_token (py ''Hello world'') (0, 1))"
    by (simp only: s isspace_Guide_me)
  have m: "[(0, 1) \<mapsto> py ''G'']((0, 1) := None) = (Map.empty :: int \<times> int \<rightharpoonup> pystr)"
    by simp
  from space_slot_chord_ignored
         [where chord_map = "[(0, 1) \<mapsto> py ''G'']" and k = "(0, 1)" and env = bare_env
            and title = None and page_width = 1500 and margin = 60 and line_spacing = 18
            and chord_gap = 8, OF e t i]
  have "render_chorded_lyrics bare_env (py ''Hello world'') [(0, 1) \<mapsto> py ''G''] None
          1500 60 18 8 =
        render_chorded_lyrics bare_env (py ''Hello world'')
          ([(0, 1) \<mapsto> py ''G'']((0, 1) := None)) None 1500 60 18 8"
    by (rule conjunct1)
  with e t s i show ?thesis by (simp only: m render_Hello_world_bare) simp
qed

subsection \<open>The token walk\<close>

lemma token_step_Inr:
  assumes "token_step base_font chord_font chord_map li y (ti, tok) (x, ops) = Inr (x', ops')"
  shows "x' = x + (if isspace tok then getlength base_font tok
                   else getlength base_font tok + getlength base_font (py '' ''))"
    and "ops' = ops @ (if isspace tok then []
                       else (case chord_map (int li, int ti) of
                               None \<Rightarrow> []
                             | Some chord_txt \<Rightarrow>
                                 [\<lparr>dt_x = x + (getlength base_font tok
                                                 - getlength chord_font chord_txt) / 2,
                                   dt_y = y, dt_text = chord_txt, dt_fill = ''black'',
                                   dt_font = chord_font\<rparr>]))"
  using assms
  by (auto simp: token_step_def textlength_def ImageDraw_text_def
        split: if_splits option.splits sum.splits)

lemma walk_tokens_append:
  "walk_tokens base_font chord_font chord_map li y (ps @ qs) st =
     (case walk_tokens base_font chord_font chord_map li y ps st of
        Inl e \<Rightarrow> Inl e
      | Inr st' \<Rightarrow> walk_tokens base_font chord_font chord_map li y qs st')"
  by (induction ps arbitrary: st) (auto split: sum.splits)

lemma walk_tokens_cursor:
  "walk_tokens base_font chord_font chord_map li y ps (x, ops) = Inr (x', ops') \<Longrightarrow>
   x' = x + (\<Sum>p\<leftarrow>ps. if isspace (snd p) then getlength base_font (snd p)
                     else getlength base_font (snd p) + getlength base_font (py '' ''))"
proof (induction ps arbitrary: x ops)
  case Nil
  then show ?case by simp
next
  case (Cons p ps)
  obtain ti tok where p: "p = (ti, tok)" by (cases p) auto
  from Cons.prems obtain x1 ops1 where
    s: "token_step base_font chord_font chord_map li y (ti, tok) (x, ops) = Inr (x1, ops1)"
    and w: "walk_tokens base_font chord_font chord_map li y ps (x1, ops1) = Inr (x', ops')"
    unfolding p by (auto split: sum.splits)
  from token_step_Inr(1) [OF s] Cons.IH [OF w] show ?case
    unfolding p by simp
qed

lemma walk_tokens_ops:
  "walk_tokens base_font chord_font chord_map li y ps (x, ops) = Inr (x', ops') \<Longrightarrow>
   \<exists>new. ops' = ops @ new"
proof (induction ps arbitrary: x ops)
  case Nil
  then show ?case by simp
next
  case (Cons p ps)
  obtain ti tok where p: "p = (ti, tok)" by (cases p) auto
  from Cons.prems obtain x1 ops1 where
    s: "token_step base_font chord_font chord_map li y (ti, tok) (x, ops) = Inr (x1, ops1)"
    and w: "walk_tokens base_font chord_font chord_map li y ps (x1, ops1) = Inr (x', ops')"
    unfolding p by (auto split: sum.splits)
  from token_step_Inr(2) [OF s] obtain n1 where "ops1 = ops @ n1" by blast
  moreover from Cons.IH [OF w] obtain n2 where "ops' = ops1 @ n2" by blast
  ultimately show ?case by simp
qed

lemma enumerate_take_Suc:
  "k < length xs \<Longrightarrow> enumerate 0 (take (Suc k) xs) = enumerate 0 (take k xs) @ [(k, xs ! k)]"
  by (simp add: take_Suc_conv_app_nth enumerate_append_eq)

lemma enumerate_split_at:
  "k < length xs \<Longrightarrow>
     enumerate 0 xs = enumerate 0 (take k xs) @ (k, xs ! k) # enumerate (Suc k) (drop (Suc k) xs)"
proof -
  assume k: "k < length xs"
  then have "xs = take k xs @ xs ! k # drop (Suc k) xs" by (simp add: id_take_nth_drop)
  then have "enumerate 0 xs = enumerate 0 (take k xs @ xs ! k # drop (Suc k) xs)" by simp
  also have "\<dots> = enumerate 0 (take k xs) @ (k, xs ! k) # enumerate (Suc k) (drop (Suc k) xs)"
    using k by (simp only: enumerate_append_eq) simp
  finally show ?thesis .
qed

text \<open>
  C5 (cursor advance rule). In the token walk of a line, take the cursor when token \<open>k\<close> is
  reached and the cursor when it has been processed. For a whitespace token the cursor has
  advanced by the measured width of that whitespace run and no draw call was made; for a
  word it has advanced by the measured width of the word plus the measured width of one
  space character, whatever token follows.
\<close>

theorem cursor_advance:
  assumes "k < length toks"
    and "walk_tokens base_font chord_font chord_map li y (enumerate 0 (take k toks))
           (x0, ops0) = Inr (x1, ops1)"
    and "walk_tokens base_font chord_font chord_map li y (enumerate 0 (take (Suc k) toks))
           (x0, ops0) = Inr (x2, ops2)"
  shows "if isspace (toks ! k)
         then x2 = x1 + getlength base_font (toks ! k) \<and> ops2 = ops1
         else x2 = x1 + (getlength base_font (toks ! k) + getlength base_font (py '' ''))"
proof -
  from assms(3) have
    "(case walk_tokens base_font chord_font chord_map li y (enumerate 0 (take k toks)) (x0, ops0)
      of Inl e \<Rightarrow> Inl e
       | Inr st' \<Rightarrow> walk_tokens base_font chord_font chord_map li y [(k, toks ! k)] st')
     = Inr (x2, ops2)"
    by (simp only: enumerate_take_Suc [OF assms(1)] walk_tokens_append)
  then have "token_step base_font chord_font chord_map li y (k, toks ! k) (x1, ops1)
               = Inr (x2, ops2)"
    by (simp add: assms(2) split: sum.splits)
  from token_step_Inr [OF this] show ?thesis by simp
qed


lemma tokenize_O_Thou_wide: "tokenize_line (py ''O  Thou'') = [py ''O'', py ''  '', py ''Thou'']"
  by (simp add: py_def is_whitespace_def)

lemma isspace_O_Thou: "\<not> isspace (py ''O'')" "isspace (py ''  '')" "\<not> isspace (py ''Thou'')"
  by (simp_all add: isspace_def py_def is_whitespace_def)

theorem cursor_advance_witness:
  "tokenize_line (py ''O  Thou'') = [py ''O'', py ''  '', py ''Thou''] \<and>
   walk_tokens (fixed_pitch 6 11) (fixed_pitch 6 11) Map.empty 0 60
       (enumerate 0 (take 0 (tokenize_line (py ''O  Thou'')))) (60, []) = Inr (60, []) \<and>
   walk_tokens (fixed_pitch 6 11) (fixed_pitch 6 11) Map.empty 0 60
       (enumerate 0 (take (Suc 0) (tokenize_line (py ''O  Thou'')))) (60, []) = Inr (72, []) \<and>
   walk_tokens (fixed_pitch 6 11) (fixed_pitch 6 11) Map.empty 0 60
       (enumerate 0 (take (Suc (Suc 0)) (tokenize_line (py ''O  Thou'')))) (60, [])
     = Inr (84, []) \<and>
   (72 :: rat) = 60 + (getlength (fixed_pitch 6 11) (py ''O'')
                       + getlength (fixed_pitch 6 11) (py '' '')) \<and>
   (84 :: rat) = 72 + getlength (fixed_pitch 6 11) (py ''  '')"
proof -
  let ?f = "fixed_pitch 6 11"
  let ?toks = "tokenize_line (py ''O  Thou'')"
  have w0: "walk_tokens ?f ?f Map.empty 0 60 (enumerate 0 (take 0 ?toks)) (60, []) = Inr (60, [])"
    by simp
  have w1: "walk_tokens ?f ?f Map.empty 0 60 (enumerate 0 (take (Suc 0) ?toks)) (60, [])
              = Inr (72, [])"
    by (simp add: tokenize_O_Thou_wide token_step_def isspace_O_Thou textlength_def
          encodes_fixed_pitch getlength_fixed_pitch)
       (simp add: py_def)
  have w2: "walk_tokens ?f ?f Map.empty 0 60 (enumerate 0 (take (Suc (Suc 0)) ?toks)) (60, [])
              = Inr (84, [])"
    by (simp add: tokenize_O_Thou_wide token_step_def isspace_O_Thou textlength_def
          encodes_fixed_pitch getlength_fixed_pitch)
       (simp add: py_def)
  have k0: "0 < length ?toks" and k1: "Suc 0 < length ?toks"
    by (simp_all add: tokenize_O_Thou_wide)
  from cursor_advance [OF k0 w0 w1] cursor_advance [OF k1 w1 w2] w0 w1 w2
  show ?thesis
    by (simp add: tokenize_O_Thou_wide isspace_O_Thou)
qed

subsection \<open>Chord placement\<close>

lemma draw_lines_append:
  "draw_lines base_font chord_font chord_map margin line_spacing chord_gap (as @ bs) st =
     (case draw_lines base_font chord_font chord_map margin line_spacing chord_gap as st of
        Inl e \<Rightarrow> Inl e
      | Inr st' \<Rightarrow>
          draw_lines base_font chord_font chord_map margin line_spacing chord_gap bs st')"
proof (induction as arbitrary: st)
  case Nil
  show ?case by simp
next
  case (Cons p as)
  obtain li line y ops where "p = (li, line)" and "st = (y, ops)"
    by (cases p, cases st) auto
  with Cons.IH show ?case by (auto split: sum.splits)
qed

lemma draw_lines_state:
  "draw_lines base_font chord_font chord_map margin line_spacing chord_gap lns (y, ops)
     = Inr (y', ops') \<Longrightarrow>
   y' = y + int (length lns)
            * (textheight chord_font + chord_gap + textheight base_font + line_spacing) \<and>
   (\<exists>new. ops' = ops @ new)"
proof (induction lns arbitrary: y ops)
  case Nil
  then show ?case by simp
next
  case (Cons p lns)
  obtain li line where p: "p = (li, line)" by (cases p) auto
  from Cons.prems obtain x ops1 where
    w: "walk_tokens base_font chord_font chord_map li y (enumerate 0 (tokenize_line line))
          (of_int margin, ops) = Inr (x, ops1)"
    and d: "draw_lines base_font chord_font chord_map margin line_spacing chord_gap lns
          (y + textheight chord_font + chord_gap + textheight base_font + line_spacing,
           ops1 @ [\<lparr>dt_x = of_int margin, dt_y = y + textheight chord_font + chord_gap,
                    dt_text = line, dt_fill = ''black'', dt_font = base_font\<rparr>])
        = Inr (y', ops')"
    unfolding p by (auto simp: ImageDraw_text_def split: sum.splits if_splits)
  from walk_tokens_ops [OF w] obtain n1 where n1: "ops1 = ops @ n1" by blast
  from Cons.IH [OF d] obtain n2 where
    "y' = y + textheight chord_font + chord_gap + textheight base_font + line_spacing
          + int (length lns)
            * (textheight chord_font + chord_gap + textheight base_font + line_spacing)"
    and "ops' = (ops1 @ [\<lparr>dt_x = of_int margin, dt_y = y + textheight chord_font + chord_gap,
                    dt_text = line, dt_fill = ''black'', dt_font = base_font\<rparr>]) @ n2"
    by blast
  with n1 show ?case by (simp add: algebra_simps)
qed

lemma walk_tokens_draws_chord:
  assumes "ti < length toks" and "\<not> isspace (toks ! ti)"
    and "chord_map (int li, int ti) = Some chord_txt"
    and "walk_tokens base_font chord_font chord_map li y (enumerate 0 toks) (x0, ops0)
           = Inr (x, ops)"
  shows "\<lparr>dt_x = x0 + (\<Sum>p\<leftarrow>enumerate 0 (take ti toks).
                          if isspace (snd p) then getlength base_font (snd p)
                          else getlength base_font (snd p) + getlength base_font (py '' ''))
                 + (getlength base_font (toks ! ti) - getlength chord_font chord_txt) / 2,
           dt_y = y, dt_text = chord_txt, dt_fill = ''black'', dt_font = chord_font\<rparr>
         \<in> set ops"
proof -
  let ?W = "walk_tokens base_font chord_font chord_map li y"
  from assms(4) have
    "(case ?W (enumerate 0 (take ti toks)) (x0, ops0) of
        Inl e \<Rightarrow> Inl e
      | Inr st' \<Rightarrow> ?W ((ti, toks ! ti) # enumerate (Suc ti) (drop (Suc ti) toks)) st')
     = Inr (x, ops)"
    by (simp only: enumerate_split_at [OF assms(1), symmetric] walk_tokens_append [symmetric])
  then obtain x1 ops1 x2 ops2 where
    pre: "?W (enumerate 0 (take ti toks)) (x0, ops0) = Inr (x1, ops1)"
    and step: "token_step base_font chord_font chord_map li y (ti, toks ! ti) (x1, ops1)
                 = Inr (x2, ops2)"
    and post: "?W (enumerate (Suc ti) (drop (Suc ti) toks)) (x2, ops2) = Inr (x, ops)"
    by (auto split: sum.splits)
  from token_step_Inr(2) [OF step] assms(2,3) have
    "ops2 = ops1 @ [\<lparr>dt_x = x1 + (getlength base_font (toks ! ti)
                                    - getlength chord_font chord_txt) / 2,
                      dt_y = y, dt_text = chord_txt, dt_fill = ''black'',
                      dt_font = chord_font\<rparr>]"
    by simp
  moreover from walk_tokens_ops [OF post] obtain new where "ops = ops2 @ new" by blast
  moreover note walk_tokens_cursor [OF pre]
  ultimately show ?thesis by simp
qed

lemma draw_title_state:
  "draw_title title_font title page_width margin
     (if truthy title then textheight title_font + 20 else 0) = Inr (y, ops) \<Longrightarrow>
   y = margin + (if truthy title then textheight title_font + 20 else 0)"
  by (cases title)
     (auto simp: draw_title_def truthy_def ImageDraw_text_def split: if_splits sum.splits)

text \<open>
  C4 (chord placement). Let a chord map entry name a word of the lyrics, and let \<open>left\<close> be
  the horizontal cursor that the walk over the tokens before the word reaches from the
  left margin. Then the canvas holds the draw call of the chord label in the chord font at
  the horizontal offset \<open>left + (w - c) / 2\<close>, in the chord row of the word's line, where
  \<open>w\<close> is the width of the word in the lyric font and \<open>c\<close> the width of the label in the
  chord font; nothing is required of \<open>c\<close> against \<open>w\<close>.
\<close>

theorem chord_placement:
  assumes "select_fonts env = (base_font, chord_font, title_font)"
    and "render_chorded_lyrics env lyrics chord_map title page_width margin line_spacing
           chord_gap = Inr img"
    and "li < length (splitlines lyrics)"
    and "toks = tokenize_line (splitlines lyrics ! li)"
    and "ti < length toks" and "\<not> isspace (toks ! ti)"
    and "chord_map (int li, int ti) = Some chord_txt"
    and "walk_tokens base_font chord_font chord_map li y (enumerate 0 (take ti toks))
           (of_int margin, ops0) = Inr (left, ops1)"
  shows "\<lparr>dt_x = left + (getlength base_font (toks ! ti)
                         - getlength chord_font chord_txt) / 2,
           dt_y = margin + (if truthy title then textheight title_font + 20 else 0)
                  + int li * (textheight chord_font + chord_gap + textheight base_font
                              + line_spacing),
           dt_text = chord_txt, dt_fill = ''black'', dt_font = chord_font\<rparr>
         \<in> set (im_ops img)"
proof -
  let ?lines = "splitlines lyrics"
  let ?title_h = "if truthy title then textheight title_font + 20 else 0"
  let ?row_h = "textheight chord_font + chord_gap + textheight base_font + line_spacing"
  let ?D = "draw_lines base_font chord_font chord_map margin line_spacing chord_gap"
  from assms(1,2) obtain st yN opsN where
    t: "draw_title title_font title page_width margin ?title_h = Inr st"
    and d: "?D (enumerate 0 ?lines) st = Inr (yN, opsN)"
    and img: "im_ops img = opsN"
    by (auto simp: render_chorded_lyrics_def layout_and_draw_def Let_def Image_new_def
          split: sum.splits if_splits)
  obtain y0 opsT where st: "st = (y0, opsT)" by (cases st) auto
  from t have y0: "y0 = margin + ?title_h" unfolding st by (rule draw_title_state)
  from d have
    "(case ?D (enumerate 0 (take li ?lines)) (y0, opsT) of
        Inl e \<Rightarrow> Inl e
      | Inr st' \<Rightarrow> ?D ((li, ?lines ! li) # enumerate (Suc li) (drop (Suc li) ?lines)) st')
     = Inr (yN, opsN)"
    unfolding st
    by (simp only: enumerate_split_at [OF assms(3), symmetric] draw_lines_append [symmetric])
  then obtain y1 opsA where
    pre: "?D (enumerate 0 (take li ?lines)) (y0, opsT) = Inr (y1, opsA)"
    and rest: "?D ((li, ?lines ! li) # enumerate (Suc li) (drop (Suc li) ?lines)) (y1, opsA)
                 = Inr (yN, opsN)"
    by (auto split: sum.splits)
  from draw_lines_state [OF pre] assms(3) have y1: "y1 = y0 + int li * ?row_h"
    by (simp add: min_def)
  from rest obtain x opsW where
    w: "walk_tokens base_font chord_font chord_map li y1 (enumerate 0 toks)
          (of_int margin, opsA) = Inr (x, opsW)"
    and tail: "?D (enumerate (Suc li) (drop (Suc li) ?lines))
          (y1 + textheight chord_font + chord_gap + textheight base_font + line_spacing,
           opsW @ [\<lparr>dt_x = of_int margin, dt_y = y1 + textheight chord_font + chord_gap,
                    dt_text = ?lines ! li, dt_fill = ''black'', dt_font = base_font\<rparr>])
        = Inr (yN, opsN)"
    unfolding assms(4) by (auto simp: ImageDraw_text_def split: sum.splits if_splits)
  from draw_lines_state [OF tail] have sub: "set opsW \<subseteq> set opsN" by auto
  from walk_tokens_cursor [OF assms(8)] have
    left: "left = of_int margin
             + (\<Sum>p\<leftarrow>enumerate 0 (take ti toks).
                  if isspace (snd p) then getlength base_font (snd p)
                  else getlength base_font (snd p) + getlength base_font (py '' ''))" .
  from walk_tokens_draws_chord [OF assms(5,6,7) w] sub
  show ?thesis unfolding img left y1 y0 by blast
qed


lemma tokenize_O_Thou: "tokenize_line (py ''O Thou'') = [py ''O'', py '' '', py ''Thou'']"
  by (simp add: py_def is_whitespace_def)

lemma splitlines_O_Thou: "splitlines (py ''O Thou'') = [py ''O Thou'']"
  by (simp add: py_def is_linebreak_def)

lemma render_O_Thou_bare:
  "render_chorded_lyrics bare_env (py ''O Thou'') [(0, 2) \<mapsto> py ''Cmaj7''] None 1500 60 18 8 =
     Inr \<lparr>im_mode = ''RGB'', im_size = (1500, 168), im_color = ''white'',
          im_ops = [\<lparr>dt_x = 75, dt_y = 60, dt_text = py ''Cmaj7'', dt_fill = ''black'',
                     dt_font = fixed_pitch 6 11\<rparr>,
                    \<lparr>dt_x = 60, dt_y = 79, dt_text = py ''O Thou'', dt_fill = ''black'',
                     dt_font = fixed_pitch 6 11\<rparr>]\<rparr>"
  by (simp add: render_chorded_lyrics_def select_fonts_bare_env layout_and_draw_def Let_def
        splitlines_O_Thou tokenize_O_Thou textheight_fixed_pitch truthy_def
        Image_new_def allocates_sample_env draw_title_def token_step_def isspace_Guide_me
        isspace_O_Thou textlength_def ImageDraw_text_def encodes_fixed_pitch
        getlength_fixed_pitch)
     (simp add: py_def)

theorem chord_placement_witness:
  "tokenize_line (splitlines (py ''O Thou'') ! 0) = [py ''O'', py '' '', py ''Thou''] \<and>
   walk_tokens (fixed_pitch 6 11) (fixed_pitch 6 11) [(0, 2) \<mapsto> py ''Cmaj7''] 0 60
       (enumerate 0 (take 2 [py ''O'', py '' '', py ''Thou''])) (of_int 60, []) = Inr (78, []) \<and>
   getlength (fixed_pitch 6 11) (py ''Thou'') = 24 \<and>
   getlength (fixed_pitch 6 11) (py ''Cmaj7'') = 30 \<and>
   \<lparr>dt_x = 78 + (24 - 30) / 2, dt_y = 60, dt_text = py ''Cmaj7'', dt_fill = ''black'',
     dt_font = fixed_pitch 6 11\<rparr>
     \<in> set (im_ops
          \<lparr>im_mode = ''RGB'', im_size = (1500, 168), im_color = ''white'',
            im_ops = [\<lparr>dt_x = 75, dt_y = 60, dt_text = py ''Cmaj7'', dt_fill = ''black'',
                       dt_font = fixed_pitch 6 11\<rparr>,
                      \<lparr>dt_x = 60, dt_y = 79, dt_text = py ''O Thou'', dt_fill = ''black'',
                       dt_font = fixed_pitch 6 11\<rparr>]\<rparr>)"
proof -
  let ?f = "fixed_pitch 6 11"
  let ?cm = "[(0, 2) \<mapsto> py ''Cmaj7''] :: int \<times> int \<rightharpoonup> pystr"
  let ?toks = "[py ''O'', py '' '', py ''Thou'']"
  have a3: "0 < length (splitlines (py ''O Thou''))" by (simp add: splitlines_O_Thou)
  have a4: "?toks = tokenize_line (splitlines (py ''O Thou'') ! 0)"
    by (simp add: splitlines_O_Thou tokenize_O_Thou)
  have a5: "2 < length ?toks" by simp
  have a6: "\<not> isspace (?toks ! 2)" by (simp add: isspace_O_Thou)
  have a7: "?cm (int 0, int 2) = Some (py ''Cmaj7'')" by simp
  have a8: "walk_tokens ?f ?f ?cm 0 60 (enumerate 0 (take 2 ?toks)) (of_int 60, [])
              = Inr (78, [])"
    by (simp add: token_step_def isspace_Guide_me isspace_O_Thou textlength_def
          encodes_fixed_pitch getlength_fixed_pitch)
       (simp add: py_def)
  have w: "getlength ?f (py ''Thou'') = 24" and c: "getlength ?f (py ''Cmaj7'') = 30"
    by (simp_all add: getlength_fixed_pitch py_def)
  from chord_placement [OF select_fonts_bare_env render_O_Thou_bare a3 a4 a5 a6 a7 a8]
  have "\<lparr>dt_x = 78 + (24 - 30) / 2, dt_y = 60, dt_text = py ''Cmaj7'', dt_fill = ''black'',
          dt_font = ?f\<rparr>
        \<in> set (im_ops
          \<lparr>im_mode = ''RGB'', im_size = (1500, 168), im_color = ''white'',
            im_ops = [\<lparr>dt_x = 75, dt_y = 60, dt_text = py ''Cmaj7'', dt_fill = ''black'',
                       dt_font = ?f\<rparr>,
                      \<lparr>dt_x = 60, dt_y = 79, dt_text = py ''O Thou'', dt_fill = ''black'',
                       dt_font = ?f\<rparr>]\<rparr>)"
    by (simp only: w c nth_Cons_numeral nth_Cons_0 numeral_2_eq_2 nth_Cons_Suc truthy_def
          option.case if_False of_nat_0 mult_zero_left add_0_right)
  with a4 a8 w c show ?thesis by simp
qed

end
